theory Spec2Isabelle
  imports Main "HOL-Library.Word" "HOL-Library.Monad_Syntax"
begin

unbundle bit_operations_syntax

section \<open>The fixed header of gomqtt packets (packet/header.go)\<close>

text \<open>
  The embedding follows \<^verbatim>\<open>src/packet/header.go\<close>. Go values are modelled as follows.
  \<^item> \<^verbatim>\<open>byte\<close> is an 8-bit word, \<^verbatim>\<open>uint64\<close> a 64-bit word.
  \<^item> \<^verbatim>\<open>int\<close> (lengths, counters, the remaining length) is a mathematical integer; the two
    conversions of the source are written out: \<^verbatim>\<open>uint64(rl)\<close> is \<open>word_of_int rl\<close> and
    \<^verbatim>\<open>int(_rl)\<close> is \<open>sint _rl\<close>, the two's complement reading of the 64 bits (\<^verbatim>\<open>int\<close> has
    64 bits on the platforms Go's 64-bit ports cover).
  \<^item> a \<^verbatim>\<open>[]byte\<close> is a list of bytes. A function that writes into its destination returns
    the destination as it is afterwards.
  \<^item> an \<^verbatim>\<open>error\<close> is a value of the datatype \<open>error\<close>; Go's \<^verbatim>\<open>nil\<close> error is \<open>None\<close>.
  \<^item> a run-time panic (index or slice bound out of range) is the result \<open>None\<close> of the
    whole function; every function that can index or slice returns an \<open>option\<close>.
\<close>

type_synonym byte = "8 word"
type_synonym uint64 = "64 word"

text \<open>
  Modelled from the spec: the declaration of the packet type (\<^verbatim>\<open>Type\<close>) is not part of
  header.go. The source converts it with \<^verbatim>\<open>byte(t)\<close> and \<^verbatim>\<open>Type(b >> 4)\<close>, so it is a
  byte. The spec lists the control packets in protocol order (CONNECT, CONNACK, PUBLISH,
  ..., DISCONNECT) and frames DISCONNECT as \<^verbatim>\<open>[0xE0, 0x00]\<close>, which numbers them from 1:
  PUBLISH is 3 and DISCONNECT is 14.
\<close>

type_synonym Type = byte

definition PUBLISH :: Type where
  "PUBLISH = 3"

definition DISCONNECT :: Type where
  "DISCONNECT = 14"

text \<open>
  The method \<^verbatim>\<open>defaultFlags\<close> of \<^verbatim>\<open>Type\<close> is declared outside header.go as well. The
  functions below take it as their first parameter \<open>defaultFlags :: Type \<Rightarrow> byte\<close>, so every
  theorem holds for whatever table the packet types carry.
\<close>

definition maxRemainingLength :: int where
  "maxRemainingLength = 268435455"

datatype error =
    InsufficientBufferSize Type int int
  | RemainingLengthOutOfBound Type int int
  | InvalidType Type Type
  | InvalidFlags Type byte byte
  | ErrorReadingRemainingLength Type
  | RemainingLengthGreaterThanBuffer Type int int

subsection \<open>Indexing and slicing, with Go's bound checks\<close>

definition index_set :: "byte list \<Rightarrow> int \<Rightarrow> byte \<Rightarrow> byte list option" where
  "index_set s i v = (if 0 \<le> i \<and> i < int (length s) then Some (s[nat i := v]) else None)"

definition index_get :: "byte list \<Rightarrow> int \<Rightarrow> byte option" where
  "index_get s i = (if 0 \<le> i \<and> i < int (length s) then Some (s ! nat i) else None)"

definition slice_from :: "byte list \<Rightarrow> int \<Rightarrow> byte list option" where
  "slice_from s lo = (if 0 \<le> lo \<and> lo \<le> int (length s) then Some (drop (nat lo) s) else None)"

definition slice :: "byte list \<Rightarrow> int \<Rightarrow> int \<Rightarrow> byte list option" where
  "slice s lo hi =
     (if 0 \<le> lo \<and> lo \<le> hi \<and> hi \<le> int (length s)
      then Some (take (nat hi - nat lo) (drop (nat lo) s)) else None)"

subsection \<open>encoding/binary: PutUvarint and Uvarint\<close>

text \<open>
  header.go calls Go's standard library for the variable-length integer. The two
  functions are embedded from the library's source.
  \<^verbatim>\<open>
  func PutUvarint(buf []byte, x uint64) int {
      i := 0
      for x >= 0x80 {
          buf[i] = byte(x) | 0x80
          x >>= 7
          i++
      }
      buf[i] = byte(x)
      return i + 1
  }
  \<close>
  The loop is the recursive function \<open>PutUvarint_loop\<close>, which carries the buffer, \<open>x\<close>
  and \<open>i\<close>; a write beyond the buffer panics.
\<close>

function PutUvarint_loop :: "byte list \<Rightarrow> uint64 \<Rightarrow> nat \<Rightarrow> (byte list \<times> int) option" where
  "PutUvarint_loop buf x i =
     (if x \<ge> 0x80 then
        (if i < length buf
         then PutUvarint_loop (buf[i := ucast x OR 0x80]) (drop_bit 7 x) (i + 1)
         else None)
      else if i < length buf then Some (buf[i := ucast x], int i + 1)
      else None)"
  by pat_completeness auto
termination
proof (relation "measure (\<lambda>(buf, x, i). unat x)")
  show "wf (measure (\<lambda>(buf :: byte list, x :: uint64, i :: nat). unat x))"
    by simp
next
  fix buf :: "byte list" and x :: uint64 and i :: nat
  assume "0x80 \<le> x"
  then have "128 \<le> unat x"
    by (simp add: word_le_nat_alt)
  moreover have "unat (drop_bit 7 x) = unat x div 128"
    by (simp add: drop_bit_eq_div unat_div)
  ultimately have "unat (drop_bit 7 x) < unat x"
    by simp
  then show "((buf[i := ucast x OR 0x80], drop_bit 7 x, i + 1), (buf, x, i))
      \<in> measure (\<lambda>(buf, x, i). unat x)"
    by simp
qed

definition PutUvarint :: "byte list \<Rightarrow> uint64 \<Rightarrow> (byte list \<times> int) option" where
  "PutUvarint buf x = PutUvarint_loop buf x 0"

text \<open>
  \<^verbatim>\<open>
  func Uvarint(buf []byte) (uint64, int) {
      var x uint64
      var s uint
      for i, b := range buf {
          if i == MaxVarintLen64 {
              return 0, -(i + 1) // overflow
          }
          if b < 0x80 {
              if i == MaxVarintLen64-1 && b > 1 {
                  return 0, -(i + 1) // overflow
              }
              return x | uint64(b)<<s, i + 1
          }
          x |= uint64(b&0x7f) << s
          s += 7
      }
      return 0, 0
  }
  \<close>
  \<^verbatim>\<open>MaxVarintLen64\<close> is 10. The loop over the buffer is structural recursion over the
  bytes that are left, with the index, \<open>x\<close> and \<open>s\<close> as accumulators. A shift of a
  \<^verbatim>\<open>uint64\<close> by 64 or more gives 0 in Go, as \<open>push_bit\<close> does on a 64-bit word.
  Older releases of the library do not stop at index 10 but scan on to the terminating
  byte before they report the overflow; they return the same value and count whenever the
  count is positive, and a different count that is still not positive on overflow.
\<close>

fun Uvarint_loop :: "byte list \<Rightarrow> nat \<Rightarrow> uint64 \<Rightarrow> nat \<Rightarrow> uint64 \<times> int" where
  "Uvarint_loop [] i x s = (0, 0)"
| "Uvarint_loop (b # bs) i x s =
     (if i = 10 then (0, - (int i + 1))
      else if b < 0x80 then
        (if i = 9 \<and> b > 1 then (0, - (int i + 1))
         else (x OR push_bit s (ucast b), int i + 1))
      else Uvarint_loop bs (i + 1) (x OR push_bit s (ucast (b AND 0x7f))) (s + 7))"

definition Uvarint :: "byte list \<Rightarrow> uint64 \<times> int" where
  "Uvarint buf = Uvarint_loop buf 0 0 0"

subsection \<open>headerLen, headerEncode, headerDecode\<close>

definition headerLen :: "int \<Rightarrow> int" where
  "headerLen rl =
     (let total = 1 in
      if rl \<le> 127 then total + 1
      else if rl \<le> 16383 then total + 2
      else if rl \<le> 2097151 then total + 3
      else total + 4)"

text \<open>
  \<open>headerEncode\<close> returns the destination as it is after the call, the number of bytes
  written and the error. The source's parameter \<^verbatim>\<open>tl\<close> (the total length of the packet
  the caller is about to write) is named \<open>tlen\<close>, since \<open>tl\<close> is the tail of a list in HOL. \<^verbatim>\<open>dst[total:]\<close> shares its memory with \<^verbatim>\<open>dst\<close>: what
  \<open>PutUvarint\<close> writes into the slice is written into \<^verbatim>\<open>dst\<close> behind the first
  \<open>total\<close> bytes.
\<close>

definition headerEncode ::
  "(Type \<Rightarrow> byte) \<Rightarrow> byte list \<Rightarrow> byte \<Rightarrow> int \<Rightarrow> int \<Rightarrow> Type
     \<Rightarrow> (byte list \<times> int \<times> error option) option" where
  "headerEncode defaultFlags dst flags rl tlen t =
     (let total = 0 in
      if int (length dst) < tlen then
        Some (dst, total, Some (InsufficientBufferSize t tlen (int (length dst))))
      else if rl > maxRemainingLength \<or> rl < 0 then
        Some (dst, total, Some (RemainingLengthOutOfBound t rl maxRemainingLength))
      else
        let hl = headerLen rl in
        if int (length dst) < hl then
          Some (dst, total, Some (InsufficientBufferSize t hl (int (length dst))))
        else do {
          let typeAndFlags = push_bit 4 t OR (defaultFlags t AND 0xf);
          let typeAndFlags = typeAndFlags OR flags;
          dst1 \<leftarrow> index_set dst total typeAndFlags;
          let total = total + 1;
          tail \<leftarrow> slice_from dst1 total;
          (tail', n) \<leftarrow> PutUvarint tail (word_of_int rl);
          let dst2 = take (nat total) dst1 @ tail';
          let total = total + n;
          Some (dst2, total, None)
        })"

text \<open>
  \<open>headerDecode\<close> returns the four results of the source: bytes consumed, flags,
  remaining length and the error.
\<close>

definition headerDecode ::
  "(Type \<Rightarrow> byte) \<Rightarrow> byte list \<Rightarrow> Type \<Rightarrow> (int \<times> byte \<times> int \<times> error option) option" where
  "headerDecode defaultFlags src t =
     (let total = 0 in
      if length src < 2 then
        Some (total, 0, 0, Some (InsufficientBufferSize t 2 (int (length src))))
      else do {
        typeAndFlags \<leftarrow> slice src total (total + 1);
        b0 \<leftarrow> index_get typeAndFlags 0;
        let decodedType = drop_bit 4 b0;
        let flags = b0 AND 0x0f;
        let total = total + 1;
        if decodedType \<noteq> t then
          Some (total, 0, 0, Some (InvalidType t decodedType))
        else if t \<noteq> PUBLISH \<and> flags \<noteq> defaultFlags t then
          Some (total, 0, 0, Some (InvalidFlags t (defaultFlags t) flags))
        else do {
          rest \<leftarrow> slice_from src total;
          let (rl64, m) = Uvarint rest;
          let rl = sint rl64;
          let total = total + m;
          if m \<le> 0 then
            Some (total, 0, 0, Some (ErrorReadingRemainingLength t))
          else do {
            rest' \<leftarrow> slice_from src total;
            if rl > int (length rest') then
              Some (total, 0, 0,
                Some (RemainingLengthGreaterThanBuffer t rl (int (length rest'))))
            else Some (total, flags, rl, None)
          }
        }
      })"

subsection \<open>The varint as the spec describes it\<close>

text \<open>
  The spec describes the remaining length on the wire as a base-128 varint: groups of 7
  bits, the least significant group first, the continuation bit \<open>0x80\<close> set on every
  byte but the last. \<open>varint\<close> follows these words on natural numbers, independently of
  the loop of \<open>PutUvarint\<close>; \<open>varint_value\<close> reads such a byte list back as the number
  its 7-bit groups denote.
\<close>

function varint :: "nat \<Rightarrow> byte list" where
  "varint n = (if n < 128 then [of_nat n] else (of_nat (n mod 128) OR 0x80) # varint (n div 128))"
  by pat_completeness auto
termination
  by (relation "measure id") auto

fun varint_value :: "byte list \<Rightarrow> nat" where
  "varint_value [] = 0"
| "varint_value (b # bs) = unat (b AND 0x7f) + 128 * varint_value bs"

declare varint.simps [simp del]
declare PutUvarint_loop.simps [simp del]

section \<open>What Uvarint returns, and headerDecode case by case\<close>

text \<open>
  \<open>Uvarint\<close> never reports more bytes than the buffer holds, so the two slices that
  \<open>headerDecode\<close> takes after reading the varint are within bounds and the function
  never panics: on a buffer of fewer than two bytes it returns the size error, on a
  longer one it goes through its checks in order.
\<close>

lemma Uvarint_loop_le:
  "snd (Uvarint_loop bs i x s) \<le> int i + int (length bs)"
proof (induction bs arbitrary: i x s)
  case Nil
  show ?case by simp
next
  case (Cons b bs)
  have "snd (Uvarint_loop bs (i + 1) y (s + 7)) \<le> int i + 1 + int (length bs)" for y
    using Cons.IH [of "Suc i" y "s + 7"] by simp
  then have "snd (Uvarint_loop bs (Suc i) y (s + 7)) \<le> int i + (1 + int (length bs))" for y
    by (simp add: add.assoc)
  moreover have "snd (Uvarint_loop bs 10 y (s + 7)) \<le> 10 + int (length bs)" for y
    using Cons.IH [of 10 y "s + 7"] by simp
  ultimately show ?case by auto
qed

lemma Uvarint_le: "Uvarint buf = (x, m) \<Longrightarrow> m \<le> int (length buf)"
  using Uvarint_loop_le [of buf 0 0 0] by (simp add: Uvarint_def)

lemma headerDecode_short:
  "length src < 2 \<Longrightarrow>
   headerDecode defaultFlags src t =
     Some (0, 0, 0, Some (InsufficientBufferSize t 2 (int (length src))))"
  by (simp add: headerDecode_def)

lemma headerDecode_long:
  assumes "2 \<le> length src" and "Uvarint (drop 1 src) = (rl64, m)"
  shows "headerDecode defaultFlags src t =
     (if drop_bit 4 (hd src) \<noteq> t then Some (1, 0, 0, Some (InvalidType t (drop_bit 4 (hd src))))
      else if t \<noteq> PUBLISH \<and> hd src AND 0x0f \<noteq> defaultFlags t then
        Some (1, 0, 0, Some (InvalidFlags t (defaultFlags t) (hd src AND 0x0f)))
      else if m \<le> 0 then Some (1 + m, 0, 0, Some (ErrorReadingRemainingLength t))
      else if sint rl64 > int (length src) - (1 + m) then
        Some (1 + m, 0, 0,
          Some (RemainingLengthGreaterThanBuffer t (sint rl64) (int (length src) - (1 + m))))
      else Some (1 + m, hd src AND 0x0f, sint rl64, None))"
proof -
  from assms(1) obtain b0 rest where src: "src = b0 # rest" and rest: "rest \<noteq> []"
    by (cases src) (auto simp: Suc_le_eq)
  from assms(2) have m: "m \<le> int (length rest)"
    using Uvarint_le [of rest rl64 m] by (simp add: src)
  from assms(2) have U: "Uvarint rest = (rl64, m)" by (simp add: src)
  have len: "0 < m \<Longrightarrow> int (length (drop (nat (1 + m)) (b0 # rest))) = int (length rest) - m"
    using m by (simp add: nat_add_distrib)
  show ?thesis
    using m len rest
    by (simp add: headerDecode_def src slice_def index_get_def slice_from_def U Let_def)
qed

lemma Uvarint_loop_unterminated:
  "\<forall>b \<in> set (take (10 - i) bs). 0x80 \<le> b \<Longrightarrow> i \<le> 10 \<Longrightarrow> snd (Uvarint_loop bs i x s) \<le> 0"
proof (induction bs arbitrary: i x s)
  case Nil
  show ?case by simp
next
  case (Cons b bs)
  show ?case
  proof (cases "i = 10")
    case True
    then show ?thesis by simp
  next
    case False
    with Cons.prems have i: "i < 10" by simp
    then have tk: "take (10 - i) (b # bs) = b # take (10 - Suc i) bs"
      by (simp add: take_Cons')
    with Cons.prems have b: "\<not> b < 0x80" and rest: "\<forall>b \<in> set (take (10 - Suc i) bs). 0x80 \<le> b"
      by (simp_all add: not_less)
    from Cons.IH [OF rest, of "x OR push_bit s (ucast (b AND 0x7f))" "s + 7"] i b
    show ?thesis by simp
  qed
qed

section \<open>PutUvarint writes the varint, Uvarint reads it back\<close>

text \<open>
  Facts about single bytes first, then the two loops: \<open>PutUvarint\<close> writes
  \<open>varint (unat x)\<close> into the buffer and leaves the rest of it alone (and does not panic
  when the buffer has room), and \<open>Uvarint\<close> reads a varint of up to nine bytes back.
\<close>

lemma bit_0x80: "bit (0x80 :: byte) k \<longleftrightarrow> k = 7"
proof -
  show ?thesis
    using bit_exp_iff [of 7 k, where ?'a = byte] by auto
qed

lemma bit_0x7f: "bit (0x7f :: byte) k \<longleftrightarrow> k < 7"
proof -
  show ?thesis
    using bit_mask_iff [of 7 k, where ?'a = byte] by (auto simp: mask_eq_exp_minus_1)
qed

lemma mod_128_take_bit: "n mod 128 = take_bit 7 (n :: nat)"
  by (simp add: take_bit_eq_mod)

lemma ucast_or_0x80: "(ucast (x :: uint64) OR 0x80 :: byte) = of_nat (unat x mod 128) OR 0x80"
  unfolding mod_128_take_bit
  by (rule bit_eqI) (simp only: bit_or_iff bit_0x80, auto simp: bit_simps)

lemma or_0x80_not_less: "\<not> ((b :: byte) OR 0x80) < 0x80"
  using le_word_or2 [of "0x80 :: byte" b] by (simp add: or.commute not_less)

lemma ucast_and_0x7f_or_0x80: "(ucast ((of_nat (n mod 128) OR 0x80 :: byte) AND 0x7f) :: uint64) = of_nat (n mod 128)"
  unfolding mod_128_take_bit
  by (rule bit_eqI)
    (simp only: bit_ucast_iff bit_and_iff bit_or_iff bit_0x80 bit_0x7f, auto simp: bit_simps)

lemma ucast_of_nat_small: "n < 128 \<Longrightarrow> (ucast (of_nat n :: byte) :: uint64) = of_nat n"
proof -
  assume "n < 128"
  then have m: "n = take_bit 7 n" by (simp add: take_bit_eq_mod)
  show ?thesis
    apply (subst m) apply (subst (2) m)
    by (rule bit_eqI) (auto simp: bit_simps)
qed

lemma of_nat_mod_div_128: "(of_nat (n mod 128) OR push_bit 7 (of_nat (n div 128)) :: uint64) = of_nat n"
  unfolding take_bit_eq_mod[of 7 n, simplified, symmetric] drop_bit_eq_div[of 7 n, simplified, symmetric]
  by (rule bit_eqI) (auto simp: bit_simps)

lemma of_nat_small_less_0x80: "n < 128 \<Longrightarrow> (of_nat n :: byte) < 0x80"
  by (simp add: word_less_nat_alt unat_of_nat)

lemma unat_ucast_byte: "unat (ucast (w :: byte) :: uint64) = unat w"
proof -
  have "unat w < 2 ^ 8" using unsigned_less [of w, where ?'a = nat] by simp
  then have "unat w < 2 ^ 64" by simp
  then show ?thesis by (simp add: unsigned_ucast_eq take_bit_nat_eq_self)
qed

lemma unat_and_0x7f_or_0x80: "unat ((of_nat (n mod 128) OR 0x80 :: byte) AND 0x7f) = n mod 128"
proof -
  have "unat ((of_nat (n mod 128) OR 0x80 :: byte) AND 0x7f)
      = unat (ucast ((of_nat (n mod 128) OR 0x80 :: byte) AND 0x7f) :: uint64)"
    by (simp only: unat_ucast_byte)
  also have "\<dots> = unat (of_nat (n mod 128) :: uint64)" by (simp only: ucast_and_0x7f_or_0x80)
  also have "\<dots> = n mod 128" by (simp add: unat_of_nat)
  finally show ?thesis .
qed

lemma unat_and_0x7f_small: "n < 128 \<Longrightarrow> unat ((of_nat n :: byte) AND 0x7f) = n"
proof -
  assume n: "n < 128"
  then have m: "n = take_bit 7 n" by (simp add: take_bit_eq_mod)
  have "(of_nat n :: byte) AND 0x7f = of_nat n"
    apply (subst m) apply (subst (2) m)
    by (rule bit_eqI) (simp only: bit_and_iff bit_0x7f, auto simp: bit_simps)
  with n show ?thesis by (simp add: unat_of_nat)
qed

lemma varint_small: "n < 128 \<Longrightarrow> varint n = [of_nat n]"
  by (subst varint.simps) simp

lemma varint_large:
  "128 \<le> n \<Longrightarrow> varint n = (of_nat (n mod 128) OR 0x80) # varint (n div 128)"
  by (subst varint.simps) simp

lemma length_varint:
  "length (varint n) =
     (if n < 128 then 1 else 1 + length (varint (n div 128)))"
  by (simp add: varint_small varint_large)

lemma length_varint_28:
  assumes "n < 268435456"
  shows "length (varint n) = (if n \<le> 127 then 1 else if n \<le> 16383 then 2 else if n \<le> 2097151 then 3 else 4)"
proof -
  have d1: "n div 128 < 128 \<longleftrightarrow> n \<le> 16383" by linarith
  have d2: "n div 128 div 128 < 128 \<longleftrightarrow> n \<le> 2097151" by linarith
  have d3: "n div 128 div 128 div 128 < 128" using assms by linarith
  show ?thesis
    using d3
    by (simp add: length_varint [of n] length_varint [of "n div 128"]
        length_varint [of "n div 128 div 128"] length_varint [of "n div 128 div 128 div 128"]
        d1 d2)
qed

lemma unat_ge_0x80: "(0x80 \<le> (x :: uint64)) = (128 \<le> unat x)"
  by (simp add: word_le_nat_alt)

lemma unat_drop_bit_7: "unat (drop_bit 7 (x :: uint64)) = unat x div 128"
  by (simp add: drop_bit_eq_div unat_div)

lemma PutUvarint_loop_varint:
  "i + length (varint (unat x)) \<le> length buf \<Longrightarrow>
   PutUvarint_loop buf x i =
     Some (take i buf @ varint (unat x) @ drop (i + length (varint (unat x))) buf,
           int (i + length (varint (unat x))))"
proof (induction buf x i rule: PutUvarint_loop.induct)
  case (1 buf x i)
  show ?case
  proof (cases "0x80 \<le> x")
    case True
    then have big: "128 \<le> unat x" by (simp add: unat_ge_0x80)
    let ?b = "ucast x OR 0x80 :: byte"
    let ?n' = "unat x div 128"
    have v: "varint (unat x) = ?b # varint ?n'"
      by (simp add: varint_large [OF big] ucast_or_0x80)
    from "1.prems" v have i: "i < length buf"
      and le: "i + 1 + length (varint ?n') \<le> length (buf[i := ?b])" by simp_all
    have "PutUvarint_loop buf x i = PutUvarint_loop (buf[i := ?b]) (drop_bit 7 x) (i + 1)"
      using True i by (subst PutUvarint_loop.simps) simp
    also have "\<dots> = Some (take (i + 1) (buf[i := ?b]) @ varint ?n'
          @ drop (i + 1 + length (varint ?n')) (buf[i := ?b]),
        int (i + 1 + length (varint ?n')))"
      using "1.IH" [OF True i] le by (simp add: unat_drop_bit_7)
    also have "take (i + 1) (buf[i := ?b]) = take i buf @ [?b]"
      using i by (simp add: take_Suc_conv_app_nth)
    also have "drop (i + 1 + length (varint ?n')) (buf[i := ?b])
        = drop (i + 1 + length (varint ?n')) buf"
      by simp
    finally show ?thesis by (simp add: v)
  next
    case False
    then have small: "unat x < 128" by (simp add: unat_ge_0x80)
    have v: "varint (unat x) = [ucast x]"
      by (simp add: varint_small [OF small])
    from "1.prems" v have i: "i < length buf" by simp
    have "PutUvarint_loop buf x i = Some (buf[i := ucast x], int i + 1)"
      using False i by (subst PutUvarint_loop.simps) simp
    then show ?thesis
      using i by (simp add: v upd_conv_take_nth_drop)
  qed
qed

lemma Uvarint_loop_varint:
  "i + length (varint n) \<le> 9 \<Longrightarrow>
   Uvarint_loop (varint n @ rest) i acc s =
     (acc OR push_bit s (of_nat n), int (i + length (varint n)))"
proof (induction n arbitrary: i acc s rule: varint.induct)
  case (1 n)
  show ?case
  proof (cases "n < 128")
    case True
    from "1.prems" have "i \<le> 8" by (simp add: varint_small [OF True])
    then show ?thesis
      using True by (simp add: varint_small of_nat_small_less_0x80 ucast_of_nat_small)
  next
    case False
    then have big: "128 \<le> n" by simp
    let ?b = "of_nat (n mod 128) OR 0x80 :: byte"
    from "1.prems" have i: "i + 1 + length (varint (n div 128)) \<le> 9"
      by (simp add: varint_large [OF big])
    then have i9: "i \<noteq> 10" "i \<noteq> 9" by simp_all
    have "Uvarint_loop (varint n @ rest) i acc s
        = Uvarint_loop (varint (n div 128) @ rest) (i + 1)
            (acc OR push_bit s (of_nat (n mod 128))) (s + 7)"
      using i9 by (simp add: varint_large [OF big] or_0x80_not_less ucast_and_0x7f_or_0x80)
    also have "\<dots> = ((acc OR push_bit s (of_nat (n mod 128))) OR push_bit (s + 7) (of_nat (n div 128)),
        int (i + 1 + length (varint (n div 128))))"
      using "1.IH" [OF False, of "i + 1"] i by simp
    also have "(acc OR push_bit s (of_nat (n mod 128))) OR push_bit (s + 7) (of_nat (n div 128))
        = acc OR push_bit s (of_nat (n mod 128) OR push_bit 7 (of_nat (n div 128)) :: uint64)"
      by (simp add: push_bit_or push_bit_push_bit or.assoc add.commute)
    finally show ?thesis
      by (simp add: of_nat_mod_div_128 varint_large [OF big])
  qed
qed


lemma varint_not_Nil: "varint n \<noteq> []"
  by (subst varint.simps) simp

lemma varint_continuation: "\<forall>b \<in> set (butlast (varint n)). 0x80 \<le> b"
proof (induction n rule: varint.induct)
  case (1 n)
  show ?case
  proof (cases "n < 128")
    case True
    then show ?thesis by (simp add: varint_small)
  next
    case False
    then have big: "128 \<le> n" by simp
    have "0x80 \<le> (of_nat (n mod 128) OR 0x80 :: byte)"
      using or_0x80_not_less [of "of_nat (n mod 128)"] by (simp add: not_less)
    with "1.IH" [OF False] show ?thesis
      by (simp add: varint_large [OF big] varint_not_Nil)
  qed
qed

lemma varint_last: "last (varint n) < 0x80"
proof (induction n rule: varint.induct)
  case (1 n)
  show ?case
  proof (cases "n < 128")
    case True
    then show ?thesis by (simp add: varint_small of_nat_small_less_0x80)
  next
    case False
    then have big: "128 \<le> n" by simp
    with "1.IH" [OF False] show ?thesis
      by (simp add: varint_large [OF big] varint_not_Nil)
  qed
qed

lemma varint_value_varint: "varint_value (varint n) = n"
proof (induction n rule: varint.induct)
  case (1 n)
  show ?case
  proof (cases "n < 128")
    case True
    then show ?thesis by (simp add: varint_small unat_and_0x7f_small)
  next
    case False
    then have big: "128 \<le> n" by simp
    with "1.IH" [OF False] show ?thesis
      by (simp add: varint_large [OF big] unat_and_0x7f_or_0x80)
  qed
qed

lemma unat_word_of_int_rl:
  "0 \<le> rl \<Longrightarrow> rl \<le> maxRemainingLength \<Longrightarrow> unat (word_of_int rl :: uint64) = nat rl"
  by (simp add: maxRemainingLength_def unat_eq_nat_uint uint_word_of_int_eq take_bit_int_eq_self)

lemma sint_of_nat_rl:
  "0 \<le> rl \<Longrightarrow> rl \<le> maxRemainingLength \<Longrightarrow> sint (of_nat (nat rl) :: uint64) = rl"
  by (simp add: maxRemainingLength_def signed_of_int signed_take_bit_int_eq_self)

lemma length_varint_headerLen:
  "0 \<le> rl \<Longrightarrow> rl \<le> maxRemainingLength \<Longrightarrow> 1 + int (length (varint (nat rl))) = headerLen rl"
  by (simp add: maxRemainingLength_def headerLen_def length_varint_28 nat_le_iff)

lemma headerEncode_success:
  assumes "tlen \<le> int (length dst)" and "0 \<le> rl" and "rl \<le> maxRemainingLength"
    and "headerLen rl \<le> int (length dst)"
  shows "headerEncode defaultFlags dst flags rl tlen t =
    Some (((push_bit 4 t OR (defaultFlags t AND 0xf)) OR flags)
            # varint (nat rl) @ drop (nat (headerLen rl)) dst,
          headerLen rl, None)"
proof -
  let ?b0 = "(push_bit 4 t OR (defaultFlags t AND 0xf)) OR flags"
  let ?L = "length (varint (nat rl))"
  have hl: "1 + int ?L = headerLen rl"
    using assms(2,3) by (rule length_varint_headerLen)
  with assms(4) obtain d0 rest where dst: "dst = d0 # rest" and L: "?L \<le> length rest"
    by (cases dst) auto
  have put: "PutUvarint rest (word_of_int rl) = Some (varint (nat rl) @ drop ?L rest, int ?L)"
    using PutUvarint_loop_varint [of 0 "word_of_int rl" rest] L
    by (simp add: PutUvarint_def unat_word_of_int_rl [OF assms(2,3)])
  have nhl: "nat (headerLen rl) = Suc ?L"
    using hl by simp
  show ?thesis
    using assms put
    by (simp add: headerEncode_def index_set_def slice_from_def dst Let_def hl [symmetric]
        nat_add_distrib)
qed

section \<open>headerEncode: failure leaves no trace\<close>

text \<open>
  C10. Whenever \<open>headerEncode\<close> returns an error, the number of bytes written is 0 and
  the destination buffer is what it was before the call: the three checks that fail stand
  before the first write.
\<close>

theorem headerEncode_error_frame:
  "headerEncode defaultFlags dst flags rl tlen t = Some (dst', n, Some e) \<Longrightarrow> n = 0 \<and> dst' = dst"
  by (auto simp: headerEncode_def Let_def split: if_splits Option.bind_splits prod.splits)

theorem headerEncode_error_frame_witness:
  "headerEncode (\<lambda>_. 0) [5] 0 0 2 DISCONNECT
     = Some ([5], 0, Some (InsufficientBufferSize DISCONNECT 2 1))
   \<and> (0::int) = 0 \<and> [5::byte] = [5]"
  using headerEncode_error_frame
    [of "\<lambda>_. 0" "[5]" 0 0 2 DISCONNECT "[5]" 0 "InsufficientBufferSize DISCONNECT 2 1"]
  by (simp add: headerEncode_def)

section \<open>headerDecode on concrete DISCONNECT frames\<close>

text \<open>
  C9. The two bytes \<open>[0xE0, 0x00]\<close> decode as a DISCONNECT header: 2 bytes consumed,
  remaining length 0, no error. The two bytes \<open>[0xE0, 0x01]\<close> announce one more byte that
  the buffer does not hold, and decoding fails. The first half needs the default flags of
  DISCONNECT to be 0, which the frame \<open>0xE0\<close> itself says.
\<close>

theorem headerDecode_disconnect:
  "defaultFlags DISCONNECT = 0 \<Longrightarrow>
     headerDecode defaultFlags [0xE0, 0x00] DISCONNECT = Some (2, 0, 0, None) \<and>
     headerDecode defaultFlags [0xE0, 0x01] DISCONNECT =
       Some (2, 0, 0, Some (RemainingLengthGreaterThanBuffer DISCONNECT 1 0))"
  by (simp add: headerDecode_def slice_def index_get_def slice_from_def Uvarint_def
      DISCONNECT_def PUBLISH_def Let_def)

theorem headerDecode_disconnect_witness:
  "headerDecode (\<lambda>_. 0) [0xE0, 0x00] DISCONNECT = Some (2, 0, 0, None) \<and>
   headerDecode (\<lambda>_. 0) [0xE0, 0x01] DISCONNECT =
     Some (2, 0, 0, Some (RemainingLengthGreaterThanBuffer DISCONNECT 1 0))"
  using headerDecode_disconnect [of "\<lambda>_. 0"] by simp

section \<open>headerDecode: what makes it fail\<close>

text \<open>
  C4. \<open>headerDecode\<close> returns an error whenever the source buffer holds fewer than 2
  bytes (nothing is consumed), and whenever the high nibble of the first byte is not the
  expected packet type (one byte is consumed).
\<close>

theorem headerDecode_size_and_type:
  "(length src < 2 \<longrightarrow>
      headerDecode defaultFlags src t =
        Some (0, 0, 0, Some (InsufficientBufferSize t 2 (int (length src))))) \<and>
   (2 \<le> length src \<and> drop_bit 4 (hd src) \<noteq> t \<longrightarrow>
      headerDecode defaultFlags src t =
        Some (1, 0, 0, Some (InvalidType t (drop_bit 4 (hd src)))))"
proof (intro conjI impI)
  assume "length src < 2"
  then show "headerDecode defaultFlags src t =
        Some (0, 0, 0, Some (InsufficientBufferSize t 2 (int (length src))))"
    by (rule headerDecode_short)
next
  assume a: "2 \<le> length src \<and> drop_bit 4 (hd src) \<noteq> t"
  obtain rl64 m where "Uvarint (drop 1 src) = (rl64, m)" by (cases "Uvarint (drop 1 src)")
  with a show "headerDecode defaultFlags src t =
        Some (1, 0, 0, Some (InvalidType t (drop_bit 4 (hd src))))"
    by (simp add: headerDecode_long)
qed

theorem headerDecode_size_and_type_witness:
  "headerDecode (\<lambda>_. 0) [0xE0] DISCONNECT =
        Some (0, 0, 0, Some (InsufficientBufferSize DISCONNECT 2 1)) \<and>
   headerDecode (\<lambda>_. 0) [0x30, 0x00] DISCONNECT =
        Some (1, 0, 0, Some (InvalidType DISCONNECT 3))"
  using headerDecode_size_and_type [of "[0xE0]" "\<lambda>_. 0" DISCONNECT]
    headerDecode_size_and_type [of "[0x30, 0x00]" "\<lambda>_. 0" DISCONNECT]
  by (simp add: DISCONNECT_def)

text \<open>
  C5. For a packet type other than PUBLISH, \<open>headerDecode\<close> fails when the low nibble of
  the first byte differs from the default flags of the type. For PUBLISH the flags are not
  checked: a buffer whose first byte has the type PUBLISH, whose varint reads \<open>m > 0\<close>
  bytes and whose remaining length fits the rest of the buffer decodes, whatever the low
  nibble of the first byte is, and that nibble is returned as the flags. The result for
  PUBLISH does not depend on the table of default flags and is never the flags error.
  Hence a PUBLISH header that decodes still decodes, to the same counts, after its first
  byte is replaced by any other byte of type PUBLISH.
\<close>

theorem headerDecode_flags:
  "(t \<noteq> PUBLISH \<and> 2 \<le> length src \<and> hd src AND 0x0f \<noteq> defaultFlags t \<longrightarrow>
      (\<exists>e. headerDecode defaultFlags src t = Some (1, 0, 0, Some e))) \<and>
   (2 \<le> length src \<and> drop_bit 4 (hd src) = PUBLISH \<and> Uvarint (drop 1 src) = (w, m) \<and>
      0 < m \<and> sint w \<le> int (length src) - (1 + m) \<longrightarrow>
      headerDecode defaultFlags src PUBLISH = Some (1 + m, hd src AND 0x0f, sint w, None)) \<and>
   headerDecode defaultFlags src PUBLISH = headerDecode defaultFlags' src PUBLISH \<and>
   headerDecode defaultFlags src PUBLISH \<noteq> Some (n', fl', rl', Some (InvalidFlags t' d' f')) \<and>
   (headerDecode defaultFlags (b # rest) PUBLISH = Some (n, fl, rl, None) \<and>
      drop_bit 4 b' = PUBLISH \<longrightarrow>
      fl = b AND 0x0f \<and>
      headerDecode defaultFlags' (b' # rest) PUBLISH = Some (n, b' AND 0x0f, rl, None))"
proof -
  have p1: "t \<noteq> PUBLISH \<and> 2 \<le> length src \<and> hd src AND 0x0f \<noteq> defaultFlags t \<longrightarrow>
      (\<exists>e. headerDecode defaultFlags src t = Some (1, 0, 0, Some e))"
  proof
    assume a: "t \<noteq> PUBLISH \<and> 2 \<le> length src \<and> hd src AND 0x0f \<noteq> defaultFlags t"
    obtain x k where "Uvarint (drop 1 src) = (x, k)" by (cases "Uvarint (drop 1 src)")
    with a show "\<exists>e. headerDecode defaultFlags src t = Some (1, 0, 0, Some e)"
      by (simp add: headerDecode_long)
  qed
  have p2: "2 \<le> length src \<and> drop_bit 4 (hd src) = PUBLISH \<and> Uvarint (drop 1 src) = (w, m) \<and>
      0 < m \<and> sint w \<le> int (length src) - (1 + m) \<longrightarrow>
      headerDecode defaultFlags src PUBLISH = Some (1 + m, hd src AND 0x0f, sint w, None)"
    by (auto simp: headerDecode_long)
  have indep: "headerDecode f src PUBLISH = headerDecode g src PUBLISH" for f g
  proof (cases "length src < 2")
    case True
    then show ?thesis by (simp add: headerDecode_short)
  next
    case False
    obtain x k where "Uvarint (drop 1 src) = (x, k)" by (cases "Uvarint (drop 1 src)")
    with False show ?thesis by (simp add: headerDecode_long)
  qed
  have p4: "headerDecode defaultFlags src PUBLISH \<noteq> Some (n', fl', rl', Some (InvalidFlags t' d' f'))"
  proof (cases "length src < 2")
    case True
    then show ?thesis by (simp add: headerDecode_short)
  next
    case False
    obtain x k where "Uvarint (drop 1 src) = (x, k)" by (cases "Uvarint (drop 1 src)")
    with False show ?thesis by (simp add: headerDecode_long)
  qed
  have p5: "headerDecode defaultFlags (b # rest) PUBLISH = Some (n, fl, rl, None) \<and>
      drop_bit 4 b' = PUBLISH \<longrightarrow>
      fl = b AND 0x0f \<and>
      headerDecode defaultFlags' (b' # rest) PUBLISH = Some (n, b' AND 0x0f, rl, None)"
  proof
    assume a: "headerDecode defaultFlags (b # rest) PUBLISH = Some (n, fl, rl, None) \<and>
      drop_bit 4 b' = PUBLISH"
    obtain x k where U: "Uvarint rest = (x, k)" by (cases "Uvarint rest")
    have len: "2 \<le> length (b # rest)"
    proof (rule ccontr)
      assume "\<not> 2 \<le> length (b # rest)"
      then have "length (b # rest) < 2" by linarith
      from headerDecode_short [OF this, of defaultFlags PUBLISH] a show False by simp
    qed
    from a show "fl = b AND 0x0f \<and>
      headerDecode defaultFlags' (b' # rest) PUBLISH = Some (n, b' AND 0x0f, rl, None)"
      using len U by (auto simp: headerDecode_long split: if_splits)
  qed
  from p1 p2 indep [of defaultFlags defaultFlags'] p4 p5 show ?thesis by blast
qed

theorem headerDecode_flags_witness:
  "headerDecode (\<lambda>_. 0) [0xE1, 0x00] DISCONNECT
     = Some (1, 0, 0, Some (InvalidFlags DISCONNECT 0 1)) \<and>
   headerDecode (\<lambda>_. 0) [0x3B, 0x01, 0x00] PUBLISH = Some (2, 11, 1, None) \<and>
   headerDecode (\<lambda>_. 5) [0x3D, 0x01, 0x00] PUBLISH = Some (2, 13, 1, None)"
proof -
  have U: "Uvarint (drop 1 [0x3B, 0x01, 0x00]) = (1, 1)"
    by (simp add: Uvarint_def)
  have e1: "headerDecode (\<lambda>_. 0) [0xE1, 0x00] DISCONNECT
     = Some (1, 0, 0, Some (InvalidFlags DISCONNECT 0 1))"
    by (simp add: headerDecode_def slice_def index_get_def slice_from_def Uvarint_def
        DISCONNECT_def PUBLISH_def Let_def)
  have e2: "headerDecode (\<lambda>_. 0) [0x3B, 0x01, 0x00] PUBLISH = Some (2, 11, 1, None)"
    using U headerDecode_flags [where t = DISCONNECT and src = "[0x3B, 0x01, 0x00]"
      and defaultFlags = "\<lambda>_. 0" and w = 1 and m = 1 and b = "0x3B"
      and rest = "[0x01, 0x00]" and n = 2 and fl = 11 and rl = 1 and b' = "0x3D"
      and defaultFlags' = "\<lambda>_. 5" and n' = 0 and fl' = 0 and rl' = 0 and t' = 0
      and d' = 0 and f' = 0]
    by (simp add: PUBLISH_def)
  have e3: "headerDecode (\<lambda>_. 5) [0x3D, 0x01, 0x00] PUBLISH = Some (2, 13, 1, None)"
    using e2 headerDecode_flags [where t = DISCONNECT and src = "[0x3B, 0x01, 0x00]"
      and defaultFlags = "\<lambda>_. 0" and w = 1 and m = 1 and b = "0x3B"
      and rest = "[0x01, 0x00]" and n = 2 and fl = 11 and rl = 1 and b' = "0x3D"
      and defaultFlags' = "\<lambda>_. 5" and n' = 0 and fl' = 0 and rl' = 0 and t' = 0
      and d' = 0 and f' = 0]
    by (simp add: PUBLISH_def)
  from e1 e2 e3 show ?thesis by simp
qed

section \<open>headerDecode: the remaining length it accepts\<close>

text \<open>
  C7. The claim is that a successful \<open>headerDecode\<close> returns a remaining length between
  0 and 268435455. \<open>headerEncode\<close> checks \<open>rl > maxRemainingLength || rl < 0\<close>;
  \<open>headerDecode\<close> has no such check and compares the value with the length of the rest
  of the buffer only. On the eleven bytes below (a ten-byte varint of \<open>2^64 - 1\<close>) the
  conversion \<^verbatim>\<open>int(_rl)\<close> gives -1, the comparison \<open>rl > len(src[total:])\<close> is false and
  the function returns the remaining length -1 with no error.
\<close>

theorem headerDecode_negative_remaining_length:
  "headerDecode defaultFlags
     [0x30, 0xFF, 0xFF, 0xFF, 0xFF, 0xFF, 0xFF, 0xFF, 0xFF, 0xFF, 0x01] PUBLISH
   = Some (11, 0, - 1, None)"
  by (simp add: headerDecode_def slice_def index_get_def slice_from_def Uvarint_def
      PUBLISH_def Let_def)

text \<open>
  C8. The claim is that \<open>headerDecode\<close> fails on every buffer whose remaining length
  exceeds the number of bytes left behind the fixed header. On the same eleven bytes the
  varint declares \<open>2^64 - 1\<close> bytes, none is left behind the header, and \<open>headerDecode\<close>
  returns no error: the comparison is made on \<^verbatim>\<open>int(_rl)\<close>, which is -1. This is the
  defect shown above, the missing check of the decoded value against 0 and
  \<open>maxRemainingLength\<close>, seen from the buffer check.
\<close>

theorem headerDecode_length_beyond_buffer:
  "Uvarint (drop 1 [0x30, 0xFF, 0xFF, 0xFF, 0xFF, 0xFF, 0xFF, 0xFF, 0xFF, 0xFF, 0x01])
     = (0xFFFFFFFFFFFFFFFF, 10) \<and>
   int (length
     (drop (1 + 10) [0x30, 0xFF, 0xFF, 0xFF, 0xFF, 0xFF, 0xFF, 0xFF, 0xFF, 0xFF, 0x01 :: byte]))
     < uint (0xFFFFFFFFFFFFFFFF :: uint64) \<and>
   headerDecode defaultFlags
     [0x30, 0xFF, 0xFF, 0xFF, 0xFF, 0xFF, 0xFF, 0xFF, 0xFF, 0xFF, 0x01] PUBLISH
   = Some (11, 0, - 1, None)"
  by (simp add: headerDecode_def slice_def index_get_def slice_from_def Uvarint_def
      PUBLISH_def Let_def)

text \<open>
  For a declared remaining length below \<open>2^63\<close> the conversion to \<^verbatim>\<open>int\<close> keeps the
  value, and the buffer check does what it is there for: when the length exceeds the bytes
  left, \<open>headerDecode\<close> fails, and with type and flags accepted it returns \<open>1 + m\<close>, the
  bytes of the fixed header consumed before the error.
\<close>

lemma sint_below_2_63: "uint (w :: uint64) < 2 ^ 63 \<Longrightarrow> sint w = uint w"
proof -
  assume u: "uint w < 2 ^ 63"
  have "sint w = signed_take_bit 63 (uint w)" by (simp add: sint_uint)
  also have "\<dots> = uint w"
  proof (rule signed_take_bit_int_eq_self)
    have "- (2 ^ 63) \<le> (0 :: int)" by simp
    also have "0 \<le> uint w" by simp
    finally show "- (2 ^ 63) \<le> uint w" .
    show "uint w < 2 ^ 63" by (rule u)
  qed
  finally show ?thesis .
qed

lemma headerDecode_remaining_exceeds_buffer:
  assumes "Uvarint (drop 1 src) = (rl64, m)" and "0 < m" and "uint rl64 < 2 ^ 63"
    and "uint rl64 > int (length src) - (1 + m)"
  shows "\<exists>n e. headerDecode defaultFlags src t = Some (n, 0, 0, Some e) \<and>
     (drop_bit 4 (hd src) = t \<and> (t = PUBLISH \<or> hd src AND 0x0f = defaultFlags t) \<longrightarrow>
        n = 1 + m \<and>
        e = RemainingLengthGreaterThanBuffer t (uint rl64) (int (length src) - (1 + m)))"
proof -
  from assms(1,2) have "2 \<le> length src"
    using Uvarint_le [of "drop 1 src" rl64 m] by simp
  moreover have "sint rl64 = uint rl64"
    using assms(3) by (rule sint_below_2_63)
  ultimately show ?thesis
    using assms by (auto simp: headerDecode_long)
qed

text \<open>
  C6. The claim is that \<open>headerDecode\<close> fails when the continuation bits of the varint
  extend past 4 bytes and never accepts a padded encoding. \<open>Uvarint\<close> reads up to ten
  bytes and does not look at minimality: the six bytes below carry a five-byte varint
  that pads the value 0, and they decode.
\<close>

theorem headerDecode_accepts_padded_varint:
  "headerDecode (\<lambda>_. 0) [0xE0, 0x80, 0x80, 0x80, 0x80, 0x00] DISCONNECT = Some (6, 0, 0, None)"
  by (simp add: headerDecode_def slice_def index_get_def slice_from_def Uvarint_def
      DISCONNECT_def PUBLISH_def Let_def)

text \<open>
  C6, as amended. \<open>headerDecode\<close> fails on a varint that does not terminate: when every
  one of the first ten bytes behind the type byte (or every byte there is, if there are
  fewer) has its continuation bit set, that is, is at least \<open>0x80\<close>. This covers the
  buffer that ends before a terminating byte and the varint whose continuation bits
  extend past ten bytes.
\<close>

theorem headerDecode_unterminated_varint:
  assumes "\<forall>b \<in> set (take 10 (drop 1 src)). 0x80 \<le> b"
  shows "\<exists>n e. headerDecode defaultFlags src t = Some (n, 0, 0, Some e)"
proof (cases "length src < 2")
  case True
  then show ?thesis by (simp add: headerDecode_short)
next
  case False
  obtain rl64 m where U: "Uvarint (drop 1 src) = (rl64, m)"
    by (cases "Uvarint (drop 1 src)")
  from assms have "snd (Uvarint_loop (drop 1 src) 0 0 0) \<le> 0"
    by (intro Uvarint_loop_unterminated) simp_all
  with U have "m \<le> 0" by (simp add: Uvarint_def)
  with False U show ?thesis by (simp add: headerDecode_long)
qed

theorem headerDecode_unterminated_varint_witness:
  "headerDecode (\<lambda>_. 0) [0xE0, 0x80] DISCONNECT
     = Some (1, 0, 0, Some (ErrorReadingRemainingLength DISCONNECT)) \<and>
   headerDecode (\<lambda>_. 0)
     [0xE0, 0x80, 0x80, 0x80, 0x80, 0x80, 0x80, 0x80, 0x80, 0x80, 0x80, 0x80, 0x00] DISCONNECT
     = Some (- 10, 0, 0, Some (ErrorReadingRemainingLength DISCONNECT))"
  using headerDecode_unterminated_varint [of "[0xE0, 0x80]" "\<lambda>_. 0" DISCONNECT]
    headerDecode_unterminated_varint
      [of "[0xE0, 0x80, 0x80, 0x80, 0x80, 0x80, 0x80, 0x80, 0x80, 0x80, 0x80, 0x80, 0x00]"
        "\<lambda>_. 0" DISCONNECT]
  by (simp add: headerDecode_def slice_def index_get_def slice_from_def Uvarint_def
      DISCONNECT_def PUBLISH_def Let_def)

section \<open>headerEncode: when it fails and what it writes\<close>

text \<open>
  C2. The claim is that for every remaining length from 0 to 268435455 the number of
  bytes \<open>headerEncode\<close> writes is \<open>headerLen rl\<close>. The function writes nothing when the
  destination is too short: with remaining length 300 and a destination of two bytes the
  header needs 3 bytes, and \<open>headerEncode\<close> returns the error and the count 0.
\<close>

theorem headerEncode_writes_nothing_into_short_buffer:
  "headerEncode (\<lambda>_. 0) [7, 7] 0 300 0 DISCONNECT
     = Some ([7, 7], 0, Some (InsufficientBufferSize DISCONNECT 3 2)) \<and>
   headerLen 300 = 3"
  by (simp add: headerEncode_def headerLen_def maxRemainingLength_def)

text \<open>
  C2, as amended. For every remaining length \<open>rl\<close> from 0 to 268435455 and every
  destination that holds at least \<open>tlen\<close> and at least \<open>headerLen rl\<close> bytes,
  \<open>headerEncode\<close> succeeds and writes exactly \<open>headerLen rl\<close> bytes at the start of the
  destination: the byte of type and flags and the varint \<open>bs\<close> of the remaining length,
  which has 1 byte if \<open>rl \<le> 127\<close>, 2 if \<open>rl \<le> 16383\<close>, 3 if \<open>rl \<le> 2097151\<close> and 4
  otherwise. The count returned is \<open>headerLen rl = 1 + length bs\<close>, and the destination
  behind these bytes is what it was.
\<close>

theorem headerEncode_writes_headerLen:
  assumes "0 \<le> rl" and "rl \<le> 268435455"
    and "tlen \<le> int (length dst)" and "headerLen rl \<le> int (length dst)"
  shows "\<exists>bs. headerEncode defaultFlags dst flags rl tlen t
        = Some (((push_bit 4 t OR (defaultFlags t AND 0x0f)) OR flags)
                  # bs @ drop (1 + length bs) dst,
                headerLen rl, None) \<and>
      bs = varint (nat rl) \<and>
      int (length bs) =
        (if rl \<le> 127 then 1 else if rl \<le> 16383 then 2 else if rl \<le> 2097151 then 3 else 4) \<and>
      headerLen rl = 1 + int (length bs) \<and>
      1 + length bs \<le> length dst"
proof -
  from assms(2) have mx: "rl \<le> maxRemainingLength" by (simp add: maxRemainingLength_def)
  define bs where "bs = varint (nat rl)"
  have hl: "1 + int (length bs) = headerLen rl"
    unfolding bs_def using assms(1) mx by (rule length_varint_headerLen)
  then have n: "nat (headerLen rl) = 1 + length bs" by simp
  with assms(4) have len: "1 + length bs \<le> length dst" by simp
  have enc: "headerEncode defaultFlags dst flags rl tlen t
        = Some (((push_bit 4 t OR (defaultFlags t AND 0x0f)) OR flags)
                  # bs @ drop (1 + length bs) dst,
                headerLen rl, None)"
    using headerEncode_success [OF assms(3) assms(1) mx assms(4), of defaultFlags flags t]
    by (simp add: n bs_def)
  have l: "int (length bs) =
        (if rl \<le> 127 then 1 else if rl \<le> 16383 then 2 else if rl \<le> 2097151 then 3 else 4)"
    using hl by (simp add: headerLen_def split: if_splits)
  from enc l hl len show ?thesis by (simp add: bs_def)
qed

theorem headerEncode_writes_headerLen_witness:
  "headerEncode (\<lambda>_. 0) [7, 7, 7, 7, 7] 0 300 3 DISCONNECT
     = Some ([0xE0, 0xAC, 0x02, 7, 7], 3, None) \<and> headerLen 300 = 3 \<and>
   varint 300 = [0xAC, 0x02]"
proof -
  have "headerLen 300 = 3" by (simp add: headerLen_def)
  moreover have "headerEncode (\<lambda>_. 0) [7, 7, 7, 7, 7] 0 300 3 DISCONNECT
     = Some ([0xE0, 0xAC, 0x02, 7, 7], 3, None)"
    by (simp add: headerEncode_def headerLen_def maxRemainingLength_def index_set_def
        slice_from_def PutUvarint_def PutUvarint_loop.simps DISCONNECT_def Let_def)
  ultimately show ?thesis
    using headerEncode_writes_headerLen [of 300 3 "[7, 7, 7, 7, 7]" "\<lambda>_. 0" 0 DISCONNECT]
    by (auto simp: Cons_eq_append_conv)
qed

text \<open>
  C3. The claim is that \<open>headerEncode\<close> fails exactly when the remaining length is
  negative or above 268435455 or the destination is shorter than the header. The first
  check of the function compares the destination with the total length \<open>tl\<close> of the
  packet that the caller passes: with \<open>tl = 3\<close>, a destination of two bytes and remaining
  length 0 the function fails, and none of the three causes holds.
\<close>

theorem headerEncode_fails_without_listed_cause:
  "headerEncode (\<lambda>_. 0) [0, 0] 0 0 3 DISCONNECT
     = Some ([0, 0], 0, Some (InsufficientBufferSize DISCONNECT 3 2)) \<and>
   \<not> ((0 :: int) < 0 \<or> (0 :: int) > 268435455 \<or> int (length [0, 0 :: byte]) < headerLen 0)"
  by (simp add: headerEncode_def headerLen_def)

text \<open>
  C3, as amended. \<open>headerEncode\<close> fails exactly when the destination is shorter than the
  total length \<open>tlen\<close> passed by the caller, the remaining length is negative or exceeds
  268435455, or the destination is shorter than \<open>headerLen rl\<close>; on failure it returns
  the destination unchanged and 0. Otherwise it succeeds (it does not panic): the first
  byte written is \<open>(t << 4) | ((defaultFlags & 0x0f) | flags)\<close>, which is
  \<open>(t << 4) | (defaultFlags | flags)\<close> when the default flags fit the low nibble, and the
  bytes that follow are \<open>varint (nat rl)\<close>, the base-128 varint of the remaining length:
  every byte but the last has the continuation bit (is at least \<open>0x80\<close>), the last one has
  not, and the 7-bit groups, least significant first, denote \<open>rl\<close>.
\<close>

theorem headerEncode_result:
  "if int (length dst) < tlen \<or> rl < 0 \<or> 268435455 < rl \<or> int (length dst) < headerLen rl
   then \<exists>e. headerEncode defaultFlags dst flags rl tlen t = Some (dst, 0, Some e)
   else \<exists>b0 bs.
     headerEncode defaultFlags dst flags rl tlen t
       = Some (b0 # bs @ drop (1 + length bs) dst, 1 + int (length bs), None) \<and>
     b0 = push_bit 4 t OR ((defaultFlags t AND 0x0f) OR flags) \<and>
     (defaultFlags t AND 0x0f = defaultFlags t \<longrightarrow>
        b0 = push_bit 4 t OR (defaultFlags t OR flags)) \<and>
     bs = varint (nat rl) \<and>
     (\<forall>b \<in> set (butlast bs). 0x80 \<le> b) \<and> last bs < 0x80 \<and> varint_value bs = nat rl"
proof (cases "int (length dst) < tlen \<or> rl < 0 \<or> 268435455 < rl \<or> int (length dst) < headerLen rl")
  case True
  then show ?thesis
    by (auto simp: headerEncode_def maxRemainingLength_def Let_def)
next
  case False
  then have a: "tlen \<le> int (length dst)" "0 \<le> rl" "rl \<le> maxRemainingLength"
      "headerLen rl \<le> int (length dst)"
    by (simp_all add: maxRemainingLength_def)
  have hl: "1 + int (length (varint (nat rl))) = headerLen rl"
    using a(2,3) by (rule length_varint_headerLen)
  then have n: "nat (headerLen rl) = 1 + length (varint (nat rl))" by simp
  show ?thesis
    using False
    by (simp add: headerEncode_success [OF a] n hl varint_continuation varint_last
        varint_value_varint or.assoc)
qed

theorem headerEncode_result_witness:
  "headerEncode (\<lambda>_. 0) [0, 0] 0 0 3 DISCONNECT
     = Some ([0, 0], 0, Some (InsufficientBufferSize DISCONNECT 3 2)) \<and>
   headerEncode (\<lambda>t. if t = 8 then 2 else 0) [7, 7, 7, 7, 7] 0 300 5 8
     = Some ([0x82, 0xAC, 0x02, 7, 7], 3, None) \<and>
   varint 300 = [0xAC, 0x02] \<and> varint_value [0xAC, 0x02] = 300"
proof -
  have e: "headerEncode (\<lambda>_. 0) [0, 0] 0 0 3 DISCONNECT
     = Some ([0, 0], 0, Some (InsufficientBufferSize DISCONNECT 3 2))"
    by (simp add: headerEncode_def)
  have s: "headerEncode (\<lambda>t. if t = 8 then 2 else 0) [7, 7, 7, 7, 7] 0 300 5 8
     = Some ([0x82, 0xAC, 0x02, 7, 7], 3, None)"
    by (simp add: headerEncode_def headerLen_def maxRemainingLength_def index_set_def
        slice_from_def PutUvarint_def PutUvarint_loop.simps Let_def)
  have hl: "headerLen 300 = 3" "headerLen 0 = 2" by (simp_all add: headerLen_def)
  from headerEncode_result [of "[0, 0]" 3 0 "\<lambda>_. 0" 0 DISCONNECT]
    headerEncode_result [of "[7, 7, 7, 7, 7]" 5 300 "\<lambda>t. if t = 8 then 2 else 0" 0 8]
  show ?thesis
    using e s hl by (auto simp: Cons_eq_append_conv)
qed

section \<open>headerEncode followed by headerDecode\<close>

text \<open>
  C1. The claim is that decoding the bytes \<open>headerEncode\<close> produced returns the remaining
  length that was encoded. \<open>headerDecode\<close> compares the remaining length with the number
  of bytes behind the header and fails when there are fewer: the two bytes written for
  DISCONNECT with remaining length 1 are \<open>[0xE0, 0x01]\<close>, and decoding them returns the
  error and remaining length 0.
\<close>

theorem headerDecode_of_encoded_bytes_fails:
  "headerEncode (\<lambda>_. 0) [0, 0] 0 1 2 DISCONNECT = Some ([0xE0, 0x01], 2, None) \<and>
   headerDecode (\<lambda>_. 0) [0xE0, 0x01] DISCONNECT
     = Some (2, 0, 0, Some (RemainingLengthGreaterThanBuffer DISCONNECT 1 0))"
  by (simp add: headerEncode_def headerLen_def maxRemainingLength_def index_set_def
      slice_from_def PutUvarint_def PutUvarint_loop.simps DISCONNECT_def PUBLISH_def Let_def
      headerDecode_def slice_def index_get_def Uvarint_def word_le_nat_alt)

text \<open>
  The type and the flags share the first byte: a type and flags of at most 15 come back
  from it unchanged.
\<close>

lemma bit_0x0f: "bit (0x0f :: byte) k \<longleftrightarrow> k < 4"
  using bit_mask_iff [of 4 k, where ?'a = byte] by (auto simp: mask_eq_exp_minus_1)

lemma le_15_take_bit: "(w :: byte) \<le> 15 \<Longrightarrow> take_bit 4 w = w"
proof -
  assume "w \<le> 15"
  then have "w < 2 ^ 4" by (simp add: word_le_nat_alt word_less_nat_alt)
  then have "w AND mask 4 = w" by (rule less_mask_eq)
  then show ?thesis by (simp add: take_bit_eq_mask)
qed

lemma nibble_type_take_bit:
  "drop_bit 4 ((push_bit 4 (take_bit 4 t) OR (d AND 0x0f)) OR take_bit 4 f :: byte) = take_bit 4 t"
  by (rule bit_eqI) (simp only: bit_simps bit_0x0f o_apply, auto)

lemma nibble_flags_take_bit:
  "((push_bit 4 t OR (d AND 0x0f)) OR take_bit 4 f :: byte) AND 0x0f = (d AND 0x0f) OR take_bit 4 f"
  by (rule bit_eqI) (simp only: bit_simps bit_0x0f o_apply, auto)

lemma nibble_type:
  "t \<le> 15 \<Longrightarrow> f \<le> 15 \<Longrightarrow> drop_bit 4 ((push_bit 4 t OR (d AND 0x0f)) OR f :: byte) = t"
  using nibble_type_take_bit [of t d f] by (simp add: le_15_take_bit)

lemma nibble_flags:
  "f \<le> 15 \<Longrightarrow> ((push_bit 4 t OR (d AND 0x0f)) OR f :: byte) AND 0x0f = (d AND 0x0f) OR f"
  using nibble_flags_take_bit [of t d f] by (simp add: le_15_take_bit)

lemma Uvarint_varint:
  assumes "0 \<le> rl" and "rl \<le> maxRemainingLength"
  shows "Uvarint (varint (nat rl) @ rest) = (of_nat (nat rl), int (length (varint (nat rl))))"
proof -
  have "1 + int (length (varint (nat rl))) = headerLen rl"
    using assms by (rule length_varint_headerLen)
  moreover have "headerLen rl \<le> 5" by (simp add: headerLen_def)
  ultimately have "0 + length (varint (nat rl)) \<le> 9" by simp
  from Uvarint_loop_varint [OF this, of rest 0 0] show ?thesis
    by (simp add: Uvarint_def)
qed

text \<open>
  C1, as amended. For every remaining length \<open>rl\<close> from 0 to 268435455, a packet type and
  flags that fit a nibble each, and flags that a type other than PUBLISH admits (set
  within the default flags of the type), \<open>headerEncode\<close> into a destination that holds at
  least the total length \<open>tlen\<close> passed to it and at least \<open>rl\<close> bytes behind the header
  succeeds, and \<open>headerDecode\<close> of the destination, for the same type, returns the
  remaining length \<open>rl\<close>, the flags written and the \<open>headerLen rl\<close> bytes consumed.
\<close>

theorem headerEncode_headerDecode_roundtrip:
  assumes "0 \<le> rl" and "rl \<le> 268435455"
    and "tlen \<le> int (length dst)" and "headerLen rl + rl \<le> int (length dst)"
    and "t \<le> 15" and "flags \<le> 15"
    and "t = PUBLISH \<or> (defaultFlags t AND 0x0f) OR flags = defaultFlags t"
  shows "\<exists>dst'. headerEncode defaultFlags dst flags rl tlen t = Some (dst', headerLen rl, None) \<and>
     headerDecode defaultFlags dst' t
       = Some (headerLen rl, (defaultFlags t AND 0x0f) OR flags, rl, None)"
proof -
  from assms(2) have mx: "rl \<le> maxRemainingLength" by (simp add: maxRemainingLength_def)
  define bs where "bs = varint (nat rl)"
  have hl: "1 + int (length bs) = headerLen rl"
    unfolding bs_def using assms(1) mx by (rule length_varint_headerLen)
  then have n: "nat (headerLen rl) = Suc (length bs)" by simp
  from assms(1,4) have hlen: "headerLen rl \<le> int (length dst)" by simp
  with n have len: "Suc (length bs) \<le> length dst" by simp
  define b0 where "b0 = (push_bit 4 t OR (defaultFlags t AND 0x0f)) OR flags"
  define rest where "rest = drop (Suc (length bs)) dst"
  have lrest: "int (length rest) = int (length dst) - headerLen rl"
    using len hl by (simp add: rest_def)
  have bsne: "bs \<noteq> []" by (simp add: bs_def varint_not_Nil)
  have enc: "headerEncode defaultFlags dst flags rl tlen t
      = Some (b0 # bs @ rest, headerLen rl, None)"
    using headerEncode_success [OF assms(3) assms(1) mx hlen, of defaultFlags flags t]
    by (simp add: n bs_def b0_def rest_def)
  have ty: "drop_bit 4 b0 = t"
    unfolding b0_def using assms(5,6) by (rule nibble_type)
  have fl: "b0 AND 0x0f = (defaultFlags t AND 0x0f) OR flags"
    unfolding b0_def using assms(6) by (rule nibble_flags)
  have U: "Uvarint (drop 1 (b0 # bs @ rest)) = (of_nat (nat rl), int (length bs))"
    using Uvarint_varint [OF assms(1) mx, of rest] by (simp add: bs_def)
  have two: "2 \<le> length (b0 # bs @ rest)"
    using bsne by (cases bs) simp_all
  have si: "sint (of_nat (nat rl) :: uint64) = rl"
    using assms(1) mx by (rule sint_of_nat_rl)
  have dec: "headerDecode defaultFlags (b0 # bs @ rest) t
      = Some (headerLen rl, (defaultFlags t AND 0x0f) OR flags, rl, None)"
    using assms(4,7) bsne lrest hl
    by (simp add: headerDecode_long [OF two U] ty fl si)
  from enc dec show ?thesis by blast
qed

theorem headerEncode_headerDecode_roundtrip_witness:
  "headerEncode (\<lambda>_. 0) [7, 7, 7, 7, 7, 7, 7, 7] 0 5 7 DISCONNECT
     = Some ([0xE0, 0x05, 7, 7, 7, 7, 7, 7], 2, None) \<and>
   headerDecode (\<lambda>_. 0) [0xE0, 0x05, 7, 7, 7, 7, 7, 7] DISCONNECT = Some (2, 0, 5, None)"
proof -
  have e: "headerEncode (\<lambda>_. 0) [7, 7, 7, 7, 7, 7, 7, 7] 0 5 7 DISCONNECT
     = Some ([0xE0, 0x05, 7, 7, 7, 7, 7, 7], 2, None)"
    by (simp add: headerEncode_def headerLen_def maxRemainingLength_def index_set_def
        slice_from_def PutUvarint_def PutUvarint_loop.simps DISCONNECT_def Let_def)
  have hl: "headerLen 5 = 2" by (simp add: headerLen_def)
  from headerEncode_headerDecode_roundtrip
    [of 5 7 "[7, 7, 7, 7, 7, 7, 7, 7]" DISCONNECT 0 "\<lambda>_. 0"]
  show ?thesis using e hl by (auto simp: DISCONNECT_def)
qed

end
